theory Spec2Isabelle
  imports Complex_Main "HOL-Library.Log_Nat"
begin

section \<open>JavaScript numbers\<close>

text \<open>
  A TypeScript \<open>number\<close> is an IEEE 754 binary64 value. The finite ones are
  rationals; the sign of zero is not distinguished (the only zero divisor of this
  program, \<open>scores.length * 5\<close> on an empty map, is \<open>+0\<close>).
\<close>

datatype number = NaN | PosInf | NegInf | Fin rat

text \<open>\<open>ilog2 q\<close> is the binary exponent of \<open>q \<noteq> 0\<close>: \<open>2 ^ ilog2 q \<le> |q| < 2 ^ (ilog2 q + 1)\<close>.\<close>

definition ilog2 :: "rat \<Rightarrow> int" where
  "ilog2 q = (if 1 \<le> \<bar>q\<bar> then bitlen \<lfloor>\<bar>q\<bar>\<rfloor> - 1 else - bitlen (\<lceil>1 / \<bar>q\<bar>\<rceil> - 1))"

definition pow2 :: "int \<Rightarrow> rat" where
  "pow2 e = (if 0 \<le> e then 2 ^ nat e else 1 / 2 ^ nat (- e))"

text \<open>Rounding to the nearest integer, a tie going to the even neighbour.\<close>

definition round_half_even :: "rat \<Rightarrow> int" where
  "round_half_even x =
     (let f = \<lfloor>x\<rfloor>; d = x - of_int f
      in if d < 1 / 2 then f
         else if 1 / 2 < d then f + 1
         else if even f then f else f + 1)"

text \<open>
  \<open>fl q\<close> is the binary64 value of the exact result \<open>q\<close>: 53 significant bits,
  the least exponent of a unit in the last place \<open>-1074\<close> (subnormals), round to
  nearest with ties to even, overflow to an infinity from \<open>2 ^ 1024\<close> on.
\<close>

definition fl :: "rat \<Rightarrow> number" where
  "fl q =
     (if q = 0 then Fin 0
      else let e = max (ilog2 q - 52) (- 1074);
               r = of_int (round_half_even (q / pow2 e)) * pow2 e
           in if 2 ^ 1024 \<le> \<bar>r\<bar> then (if 0 < q then PosInf else NegInf) else Fin r)"

fun js_add :: "number \<Rightarrow> number \<Rightarrow> number" where
  "js_add NaN _ = NaN"
| "js_add _ NaN = NaN"
| "js_add PosInf NegInf = NaN"
| "js_add NegInf PosInf = NaN"
| "js_add PosInf _ = PosInf"
| "js_add _ PosInf = PosInf"
| "js_add NegInf _ = NegInf"
| "js_add _ NegInf = NegInf"
| "js_add (Fin a) (Fin b) = fl (a + b)"

fun js_mul :: "number \<Rightarrow> number \<Rightarrow> number" where
  "js_mul NaN _ = NaN"
| "js_mul _ NaN = NaN"
| "js_mul PosInf PosInf = PosInf"
| "js_mul PosInf NegInf = NegInf"
| "js_mul NegInf PosInf = NegInf"
| "js_mul NegInf NegInf = PosInf"
| "js_mul PosInf (Fin b) = (if b = 0 then NaN else if 0 < b then PosInf else NegInf)"
| "js_mul NegInf (Fin b) = (if b = 0 then NaN else if 0 < b then NegInf else PosInf)"
| "js_mul (Fin a) PosInf = (if a = 0 then NaN else if 0 < a then PosInf else NegInf)"
| "js_mul (Fin a) NegInf = (if a = 0 then NaN else if 0 < a then NegInf else PosInf)"
| "js_mul (Fin a) (Fin b) = fl (a * b)"

fun js_div :: "number \<Rightarrow> number \<Rightarrow> number" where
  "js_div NaN _ = NaN"
| "js_div _ NaN = NaN"
| "js_div PosInf PosInf = NaN"
| "js_div PosInf NegInf = NaN"
| "js_div NegInf PosInf = NaN"
| "js_div NegInf NegInf = NaN"
| "js_div PosInf (Fin b) = (if 0 \<le> b then PosInf else NegInf)"
| "js_div NegInf (Fin b) = (if 0 \<le> b then NegInf else PosInf)"
| "js_div (Fin a) PosInf = Fin 0"
| "js_div (Fin a) NegInf = Fin 0"
| "js_div (Fin a) (Fin b) =
     (if b = 0 then (if a = 0 then NaN else if 0 < a then PosInf else NegInf)
      else fl (a / b))"

text \<open>\<open>a <= b\<close>: false as soon as one side is \<open>NaN\<close>.\<close>

fun js_le :: "number \<Rightarrow> number \<Rightarrow> bool" where
  "js_le NaN _ = False"
| "js_le _ NaN = False"
| "js_le NegInf _ = True"
| "js_le _ PosInf = True"
| "js_le PosInf _ = False"
| "js_le _ NegInf = False"
| "js_le (Fin a) (Fin b) = (a \<le> b)"

text \<open>\<open>Math.round\<close>: the nearest integer, a tie going up; \<open>NaN\<close> and the infinities are kept.\<close>

fun Math_round :: "number \<Rightarrow> number" where
  "Math_round (Fin q) = Fin (of_int \<lfloor>q + 1 / 2\<rfloor>)"
| "Math_round x = x"

section \<open>The data of the panel\<close>

datatype LinkType = policy | terms

record LinkData =
  href :: string
  text' :: string
  type' :: LinkType
  pageTitle :: "string option"

record ContentScriptMessage =
  action :: string
  links :: "LinkData list"

record InjectionResponse =
  status :: string
  error :: "string option"

record ScoreData =
  quotes :: "string list"
  score :: number

text \<open>The specification's range of a score: an integer from 0 to 5.\<close>

definition valid_score :: "number \<Rightarrow> bool" where
  "valid_score x = (x \<in> {Fin 0, Fin 1, Fin 2, Fin 3, Fin 4, Fin 5})"

text \<open>
  \<open>Record<string, ScoreData>\<close>: the entries in the order in which \<open>Object.keys\<close> and
  \<open>Object.values\<close> enumerate them.
\<close>

record Results =
  scores :: "(string \<times> ScoreData) list"

record Metadata =
  risk_percentage :: number
  risk_level :: string

record ApiResponse =
  scores :: Results
  metadata :: Metadata

text \<open>
  What \<open>setLinks\<close> stores for one link: the link itself, or the link spread into a new
  object with the field \<open>analysis\<close> added.
\<close>

datatype StoredLink = Link LinkData | LinkWithAnalysis LinkData ApiResponse

fun link_of :: "StoredLink \<Rightarrow> LinkData" where
  "link_of (Link l) = l"
| "link_of (LinkWithAnalysis l a) = l"

fun analysis_of :: "StoredLink \<Rightarrow> ApiResponse option" where
  "analysis_of (Link l) = None"
| "analysis_of (LinkWithAnalysis l a) = Some a"

text \<open>A thrown value: an \<open>Error\<close> with its message, or a value that is no \<open>Error\<close>.\<close>

datatype exn = Error string | NonError

text \<open>
  What \<open>fetch\<close> resolves with: the flag \<open>ok\<close> and what \<open>response.json()\<close> settles
  with (the parsed body, taken at its declared type without any check, or a rejection).
\<close>

record Response =
  ok :: bool
  json :: "exn + ApiResponse"

record Ack =
  farewell :: string

section \<open>The aggregation\<close>

definition Object_values :: "(string \<times> ScoreData) list \<Rightarrow> ScoreData list" where
  "Object_values m = map snd m"

definition calculateTotalScore :: "Results \<Rightarrow> number" where
  "calculateTotalScore results =
     (let scores = Object_values (Results.scores results);
          totalScores = foldl (\<lambda>sum scoreData. js_add sum (score scoreData)) (Fin 0) scores;
          maxPossibleScore = js_mul (Fin (of_nat (length scores))) (Fin 5);
          percentageScore = js_mul (js_div totalScores maxPossibleScore) (Fin 100)
      in Math_round percentageScore)"

text \<open>The class of the score's \<open>span\<close>: red, blue or purple.\<close>

definition scoreClass :: "number \<Rightarrow> string" where
  "scoreClass p =
     (if js_le p (Fin 40) then ''text-red-500''
      else if js_le p (Fin 80) then ''text-blue-600''
      else ''text-purple-500'')"

section \<open>The component\<close>

text \<open>The state of the component \<open>Sidebar\<close>: its four \<open>useState\<close> cells.\<close>

record Sidebar =
  links :: "StoredLink list"
  isInjecting :: bool
  error :: "string option"
  results :: Results

definition initial_results :: Results where
  "initial_results =
     \<lparr>Results.scores =
        [(''account_control'', \<lparr>quotes = [''exact quote 1'', ''exact quote 2''], score = Fin 3\<rparr>),
         (''data_collection'', \<lparr>quotes = [''exact quote 1'', ''exact quote 2''], score = Fin 2\<rparr>),
         (''privacy_info'', \<lparr>quotes = [''exact quote 1'', ''exact quote 2''], score = Fin 4\<rparr>),
         (''account_testing'', \<lparr>quotes = [''exact quote 1'', ''exact quote 2''], score = Fin 5\<rparr>)]\<rparr>"

definition initial :: Sidebar where
  "initial = \<lparr>links = [], isInjecting = False, error = None, results = initial_results\<rparr>"

text \<open>
  The effects of the two handlers, in the order in which they happen. Console output is
  left out.
\<close>

datatype Effect =
    Fetch string
  | SendMessage string
  | SetLinks "StoredLink list"
  | SetIsInjecting bool
  | SetError "string option"
  | SendResponse Ack

fun apply_effect :: "Effect \<Rightarrow> Sidebar \<Rightarrow> Sidebar" where
  "apply_effect (SetLinks ls) st = st\<lparr>links := ls\<rparr>"
| "apply_effect (SetIsInjecting b) st = st\<lparr>isInjecting := b\<rparr>"
| "apply_effect (SetError e) st = st\<lparr>error := e\<rparr>"
| "apply_effect (Fetch url) st = st"
| "apply_effect (SendMessage a) st = st"
| "apply_effect (SendResponse r) st = st"

definition run :: "Effect list \<Rightarrow> Sidebar \<Rightarrow> Sidebar" where
  "run es st = fold apply_effect es st"

subsection \<open>fetchAnalysis\<close>

text \<open>
  \<open>fetchAnalysis\<close>, given what its call of \<open>fetch\<close> settles with: a rejection is
  caught, logged and thrown again; a response that is not \<open>ok\<close> throws; otherwise the
  result is that of \<open>response.json()\<close>.
\<close>

definition fetchAnalysis :: "exn + Response \<Rightarrow> exn + ApiResponse" where
  "fetchAnalysis settled =
     (case settled of
        Inl e \<Rightarrow> Inl e
      | Inr response \<Rightarrow>
          if \<not> ok response then Inl (Error ''Failed to fetch analysis'')
          else json response)"

subsection \<open>The message listener\<close>

text \<open>The callback of \<open>message.links.map\<close>: one link, and what its \<open>fetch\<close> settles with.\<close>

definition analyseLink :: "exn + Response \<Rightarrow> LinkData \<Rightarrow> StoredLink" where
  "analyseLink settled link =
     (case fetchAnalysis settled of
        Inr analysis \<Rightarrow> LinkWithAnalysis link analysis
      | Inl e \<Rightarrow> Link link)"

text \<open>
  \<open>Promise.all\<close> over promises that fulfil with the values \<open>ps\<close>, settling in the order
  \<open>order\<close> (the indices of the promises, as they settle): each settlement stores the value
  in the slot of its own index; the result is there when no slot is empty, and never
  otherwise.
\<close>

definition store_slot :: "'a list \<Rightarrow> 'a option list \<Rightarrow> nat \<Rightarrow> 'a option list" where
  "store_slot ps slots i = (if i < length ps then slots[i := Some (ps ! i)] else slots)"

definition Promise_all :: "nat list \<Rightarrow> 'a list \<Rightarrow> 'a list option" where
  "Promise_all order ps =
     (let slots = foldl (store_slot ps) (replicate (length ps) None) order
      in if list_all (\<lambda>s. s \<noteq> None) slots then Some (map the slots) else None)"

text \<open>
  The network is a function \<open>net\<close>: what the \<open>fetch\<close> of the \<open>i\<close>-th link of the batch,
  for the URL sent in the body, settles with. \<open>link_outcomes\<close> are the values that the
  promises of \<open>message.links.map(async (link) => ...)\<close> fulfil with; none of them rejects,
  since the callback catches every failure.
\<close>

definition link_outcomes ::
  "(nat \<Rightarrow> string \<Rightarrow> exn + Response) \<Rightarrow> LinkData list \<Rightarrow> StoredLink list" where
  "link_outcomes net ls = map (\<lambda>(i, link). analyseLink (net i (href link)) link) (enumerate 0 ls)"

definition linksWithAnalysis ::
  "(nat \<Rightarrow> string \<Rightarrow> exn + Response) \<Rightarrow> nat list \<Rightarrow> LinkData list \<Rightarrow> StoredLink list option" where
  "linksWithAnalysis net order ls = Promise_all order (link_outcomes net ls)"

definition goodbye :: Ack where
  "goodbye = \<lparr>farewell = ''goodbye''\<rparr>"

text \<open>
  The listener runs in two parts. \<open>messageListener_sync\<close> is what happens while the message
  is dispatched, up to the first \<open>await\<close>: every callback of \<open>map\<close> runs up to its call of
  \<open>fetch\<close>. \<open>messageListener_resume\<close> is what happens after \<open>await Promise.all\<close>, or
  \<open>None\<close> when that promise never settles.
\<close>

definition messageListener_sync :: "ContentScriptMessage \<Rightarrow> Effect list" where
  "messageListener_sync message =
     (if action message = ''sendLinks''
      then map (\<lambda>link. Fetch (href link)) (ContentScriptMessage.links message)
      else [SendResponse goodbye])"

definition messageListener_resume ::
  "(nat \<Rightarrow> string \<Rightarrow> exn + Response) \<Rightarrow> nat list \<Rightarrow> ContentScriptMessage \<Rightarrow> Effect list option" where
  "messageListener_resume net order message =
     (if action message = ''sendLinks''
      then (case linksWithAnalysis net order (ContentScriptMessage.links message) of
              None \<Rightarrow> None
            | Some lwa \<Rightarrow> Some [SetLinks lwa, SetError None, SendResponse goodbye])
      else Some [])"

definition messageListener ::
  "(nat \<Rightarrow> string \<Rightarrow> exn + Response) \<Rightarrow> nat list \<Rightarrow> ContentScriptMessage \<Rightarrow> Effect list option" where
  "messageListener net order message =
     map_option (\<lambda>es. messageListener_sync message @ es) (messageListener_resume net order message)"

subsection \<open>injectScript\<close>

definition injectScript_sync :: "Effect list" where
  "injectScript_sync = [SetIsInjecting True, SetError None, SendMessage ''injectContentScript'']"

text \<open>
  The body of the \<open>try\<close> after \<open>sendMessage\<close> has settled, with a rejection or with a
  response (\<open>None\<close> is \<open>undefined\<close>).
\<close>

definition injectScript_try :: "exn + InjectionResponse option \<Rightarrow> exn + unit" where
  "injectScript_try settled =
     (case settled of
        Inl e \<Rightarrow> Inl e
      | Inr response \<Rightarrow>
          if map_option status response = Some ''success'' then Inr ()
          else Inl (Error (case Option.bind response InjectionResponse.error of
                             None \<Rightarrow> ''Failed to inject content script''
                           | Some m \<Rightarrow> if m = [] then ''Failed to inject content script'' else m)))"

definition errorMessage :: "exn \<Rightarrow> string" where
  "errorMessage err = (case err of Error m \<Rightarrow> m | NonError \<Rightarrow> ''Unknown error occurred'')"

definition injectScript_resume :: "exn + InjectionResponse option \<Rightarrow> Effect list" where
  "injectScript_resume settled =
     (case injectScript_try settled of
        Inr u \<Rightarrow> []
      | Inl err \<Rightarrow> [SetError (Some (errorMessage err))])
     @ [SetIsInjecting False]"

definition injectScript :: "exn + InjectionResponse option \<Rightarrow> Effect list" where
  "injectScript settled = injectScript_sync @ injectScript_resume settled"

subsection \<open>What is rendered\<close>

record View =
  errorBox :: "string option"
  scorePanel :: "(number \<times> string) option"
  sources :: "StoredLink list"

definition render :: "Sidebar \<Rightarrow> View" where
  "render st =
     \<lparr>errorBox = (case Sidebar.error st of None \<Rightarrow> None | Some m \<Rightarrow> if m = [] then None else Some m),
      scorePanel =
        (if 0 < length (Sidebar.links st)
         then Some (calculateTotalScore (results st), scoreClass (calculateTotalScore (results st)))
         else None),
      sources = Sidebar.links st\<rparr>"

subsection \<open>The states of the panel\<close>

text \<open>
  A step of the panel is one part of a handler: the scan button starts \<open>injectScript\<close>
  (it is disabled while \<open>isInjecting\<close>), a pending \<open>sendMessage\<close> settles, or a listener
  whose fetches have all settled resumes. The synchronous part of the listener leaves
  the state as it is.
\<close>

inductive reachable :: "Sidebar \<Rightarrow> bool" where
  init: "reachable initial"
| click: "reachable st \<Longrightarrow> \<not> isInjecting st \<Longrightarrow> reachable (run injectScript_sync st)"
| settle: "reachable st \<Longrightarrow> isInjecting st \<Longrightarrow> reachable (run (injectScript_resume settled) st)"
| notify: "reachable st \<Longrightarrow> messageListener net order message = Some es \<Longrightarrow> reachable (run es st)"

section \<open>The specification's words\<close>

text \<open>
  The specification's words, not the source's: the union of the category maps of the
  links whose analysis succeeded.
\<close>

definition spec_successful_maps :: "StoredLink list \<Rightarrow> Results" where
  "spec_successful_maps ls =
     \<lparr>Results.scores =
        concat (map (\<lambda>l. case analysis_of l of
                            None \<Rightarrow> []
                          | Some a \<Rightarrow> Results.scores (ApiResponse.scores a)) ls)\<rparr>"

text \<open>
  The specification's words for the percentage: the sum of the scores, divided by five
  times their number, times 100, rounded to the nearest integer, in exact arithmetic.
\<close>

fun the_Fin :: "number \<Rightarrow> rat" where
  "the_Fin (Fin q) = q"
| "the_Fin x = 0"

definition spec_exact :: "Results \<Rightarrow> rat" where
  "spec_exact r =
     (let xs = map (\<lambda>(k, sd). the_Fin (score sd)) (Results.scores r)
      in 100 * sum_list xs / (5 * of_nat (length xs)))"

definition spec_percentage :: "Results \<Rightarrow> int" where
  "spec_percentage r = round (spec_exact r)"

section \<open>Concrete inputs\<close>

text \<open>Eight categories with the scores 5, 5, 5, 5, 3, 0, 0, 0: their sum is 23 of 40.\<close>

definition eight_categories :: Results where
  "eight_categories =
     \<lparr>Results.scores =
        [(''c1'', \<lparr>quotes = [], score = Fin 5\<rparr>),
         (''c2'', \<lparr>quotes = [], score = Fin 5\<rparr>),
         (''c3'', \<lparr>quotes = [], score = Fin 5\<rparr>),
         (''c4'', \<lparr>quotes = [], score = Fin 5\<rparr>),
         (''c5'', \<lparr>quotes = [], score = Fin 3\<rparr>),
         (''c6'', \<lparr>quotes = [], score = Fin 0\<rparr>),
         (''c7'', \<lparr>quotes = [], score = Fin 0\<rparr>),
         (''c8'', \<lparr>quotes = [], score = Fin 0\<rparr>)]\<rparr>"

text \<open>
  The scenario of the specification: two links, the analysis of the first returns two
  categories with the scores 3 and 2, the fetch of the second fails.
\<close>

definition link_tos :: LinkData where
  "link_tos = \<lparr>href = ''https://x.com/tos'', text' = ''Terms'', type' = terms, pageTitle = None\<rparr>"

definition link_priv :: LinkData where
  "link_priv = \<lparr>href = ''https://x.com/priv'', text' = ''Privacy'', type' = policy, pageTitle = None\<rparr>"

definition analysis_tos :: ApiResponse where
  "analysis_tos =
     \<lparr>ApiResponse.scores =
        \<lparr>Results.scores =
           [(''account_control'', \<lparr>quotes = [''q1''], score = Fin 3\<rparr>),
            (''data_collection'', \<lparr>quotes = [''q2''], score = Fin 2\<rparr>)]\<rparr>,
      metadata = \<lparr>risk_percentage = Fin 50, risk_level = ''moderate''\<rparr>\<rparr>"

definition net_scenario :: "nat \<Rightarrow> string \<Rightarrow> exn + Response" where
  "net_scenario i url =
     (if url = ''https://x.com/tos'' then Inr \<lparr>ok = True, json = Inr analysis_tos\<rparr>
      else Inl (Error ''Failed to fetch''))"

definition message_scenario :: ContentScriptMessage where
  "message_scenario = \<lparr>action = ''sendLinks'', links = [link_tos, link_priv]\<rparr>"

text \<open>The panel after the listener has run on the scenario, started in the initial state.\<close>

definition scenario_state :: Sidebar where
  "scenario_state =
     (case messageListener net_scenario [0, Suc 0] message_scenario of
        None \<Rightarrow> initial
      | Some es \<Rightarrow> run es initial)"

text \<open>One link whose analysis carries the score 9.\<close>

definition analysis_nine :: ApiResponse where
  "analysis_nine =
     \<lparr>ApiResponse.scores =
        \<lparr>Results.scores = [(''data_collection'', \<lparr>quotes = [''q''], score = Fin 9\<rparr>)]\<rparr>,
      metadata = \<lparr>risk_percentage = Fin 180, risk_level = ''high''\<rparr>\<rparr>"

definition net_nine :: "nat \<Rightarrow> string \<Rightarrow> exn + Response" where
  "net_nine i url = Inr \<lparr>ok = True, json = Inr analysis_nine\<rparr>"

definition message_one :: ContentScriptMessage where
  "message_one = \<lparr>action = ''sendLinks'', links = [link_tos]\<rparr>"

section \<open>Facts about the number model\<close>

lemma pow2_powi: "pow2 e = 2 powi e"
  by (simp add: pow2_def power_int_def inverse_eq_divide power_one_over)

lemma pow2_pos: "0 < pow2 e"
  by (simp add: pow2_powi)

lemma pow2_add: "pow2 (a + b) = pow2 a * pow2 b"
  by (simp add: pow2_powi power_int_add)

lemma pow2_mono: "a \<le> b \<Longrightarrow> pow2 a \<le> pow2 b"
  by (simp add: pow2_powi power_int_increasing)

lemma ilog2_bounds:
  assumes "q \<noteq> 0"
  shows "pow2 (ilog2 q) \<le> \<bar>q\<bar> \<and> \<bar>q\<bar> < pow2 (ilog2 q + 1)"
proof (cases "1 \<le> \<bar>q\<bar>")
  case True
  define n where "n = \<lfloor>\<bar>q\<bar>\<rfloor>"
  have n: "0 < n" using True by (simp add: n_def)
  have il: "ilog2 q = bitlen n - 1" using True by (simp add: ilog2_def n_def)
  have b1: "1 \<le> bitlen n" using n by (simp add: bitlen_ge_iff_power) 
  from bitlen_bounds[OF n] have lo: "2 ^ nat (bitlen n - 1) \<le> n" and hi: "n < 2 ^ nat (bitlen n)" by auto
  have "pow2 (bitlen n - 1) = of_int (2 ^ nat (bitlen n - 1))" using b1 by (simp add: pow2_def)
  also have "\<dots> \<le> of_int n" using lo by (simp only: of_int_le_iff)
  also have "\<dots> \<le> \<bar>q\<bar>" unfolding n_def by linarith
  finally have A: "pow2 (ilog2 q) \<le> \<bar>q\<bar>" by (simp add: il)
  have "n + 1 \<le> 2 ^ nat (bitlen n)" using hi by simp
  then have "(of_int (n + 1) :: rat) \<le> of_int (2 ^ nat (bitlen n))" by (simp only: of_int_le_iff)
  moreover have "\<bar>q\<bar> < of_int (n + 1)" unfolding n_def by linarith
  ultimately have "\<bar>q\<bar> < of_int (2 ^ nat (bitlen n))" by linarith
  also have "\<dots> = pow2 (bitlen n)" using b1 by (simp add: pow2_def)
  finally have B: "\<bar>q\<bar> < pow2 (ilog2 q + 1)" by (simp add: il)
  from A B show ?thesis by simp
next
  case False
  define a where "a = \<bar>q\<bar>"
  have a: "0 < a" "a < 1" using False assms by (simp_all add: a_def)
  define m where "m = \<lceil>1 / a\<rceil> - 1"
  have "1 < 1 / a" using a by simp
  then have "1 < \<lceil>1 / a\<rceil>" by (simp add: less_ceiling_iff)
  then have m: "0 < m" by (simp add: m_def)
  have il: "ilog2 q = - bitlen m" using False by (simp add: ilog2_def m_def a_def)
  have b1: "1 \<le> bitlen m" using m by (simp add: bitlen_ge_iff_power) 
  from bitlen_bounds[OF m] have lo: "2 ^ nat (bitlen m - 1) \<le> m" and hi: "m < 2 ^ nat (bitlen m)" by auto
  have m_lt: "of_int m < 1 / a" unfolding m_def by linarith
  have m_ge: "1 / a \<le> of_int (m + 1)" unfolding m_def by linarith
  have "(of_int (m + 1) :: rat) \<le> of_int (2 ^ nat (bitlen m))" using hi by (simp only: of_int_le_iff)
  with m_ge have "1 / a \<le> 2 ^ nat (bitlen m)" by simp
  then have "1 / 2 ^ nat (bitlen m) \<le> a" using a by (simp add: field_simps)
  moreover have "pow2 (- bitlen m) = 1 / 2 ^ nat (bitlen m)" using b1 by (simp add: pow2_def)
  ultimately have A: "pow2 (ilog2 q) \<le> \<bar>q\<bar>" by (simp add: il a_def)
  have "(of_int (2 ^ nat (bitlen m - 1)) :: rat) \<le> of_int m" using lo by (simp only: of_int_le_iff)
  then have "(2::rat) ^ nat (bitlen m - 1) \<le> of_int m" by simp
  with m_lt have "2 ^ nat (bitlen m - 1) < 1 / a" by linarith
  then have "a < 1 / 2 ^ nat (bitlen m - 1)" using a by (simp add: field_simps)
  moreover have "pow2 (- bitlen m + 1) = 1 / 2 ^ nat (bitlen m - 1)" using b1 
    by (cases "bitlen m = 1") (simp_all add: pow2_def)
  ultimately have B: "\<bar>q\<bar> < pow2 (ilog2 q + 1)" by (simp add: il a_def)
  from A B show ?thesis by simp
qed

lemma ilog2_unique:
  assumes "q \<noteq> 0" "pow2 k \<le> \<bar>q\<bar>" "\<bar>q\<bar> < pow2 (k + 1)"
  shows "ilog2 q = k"
proof (rule ccontr)
  assume ne: "ilog2 q \<noteq> k"
  from ilog2_bounds[OF assms(1)] have b: "pow2 (ilog2 q) \<le> \<bar>q\<bar>" "\<bar>q\<bar> < pow2 (ilog2 q + 1)" by auto
  show False
  proof (cases "ilog2 q < k")
    case True
    then have "pow2 (ilog2 q + 1) \<le> pow2 k" by (intro pow2_mono) simp
    with b(2) assms(2) show False by linarith
  next
    case False
    with ne have "k + 1 \<le> ilog2 q" by simp
    then have "pow2 (k + 1) \<le> pow2 (ilog2 q)" by (rule pow2_mono)
    with b(1) assms(3) show False by linarith
  qed
qed

lemma round_half_even_of_int: "round_half_even (of_int n) = n"
  by (simp add: round_half_even_def)


lemma fl_normal:
  assumes "q \<noteq> 0" "pow2 k \<le> \<bar>q\<bar>" "\<bar>q\<bar> < pow2 (k + 1)" "- 1022 \<le> k"
  shows "fl q =
    (let r = of_int (round_half_even (q / pow2 (k - 52))) * pow2 (k - 52)
     in if 2 ^ 1024 \<le> \<bar>r\<bar> then (if 0 < q then PosInf else NegInf) else Fin r)"
proof -
  have "ilog2 q = k" using assms(1-3) by (rule ilog2_unique)
  moreover have "max (k - 52) (- 1074) = k - 52" using assms(4) by simp
  ultimately show ?thesis using assms(1) by (simp add: fl_def Let_def)
qed

lemma fl_of_int:
  assumes "\<bar>n\<bar> < 2 ^ 53"
  shows "fl (of_int n) = Fin (of_int n)"
proof (cases "n = 0")
  case True
  then show ?thesis by (simp add: fl_def)
next
  case False
  define q :: rat where "q = of_int n"
  define k where "k = ilog2 q"
  have q0: "q \<noteq> 0" using False by (simp add: q_def)
  from ilog2_bounds[OF q0] have lo: "pow2 k \<le> \<bar>q\<bar>" and hi: "\<bar>q\<bar> < pow2 (k + 1)"
    by (simp_all add: k_def)
  have "1 \<le> \<bar>n\<bar>" using False by simp
  then have q1: "1 \<le> \<bar>q\<bar>" unfolding q_def by (metis of_int_1_le_iff of_int_abs)
  have "\<bar>q\<bar> < of_int (2 ^ 53)" unfolding q_def using assms by (metis of_int_less_iff of_int_abs)
  then have q53: "\<bar>q\<bar> < pow2 53" by (simp add: pow2_def)
  have k0: "0 \<le> k"
  proof (rule ccontr)
    assume "\<not> 0 \<le> k"
    then have "pow2 (k + 1) \<le> pow2 0" by (intro pow2_mono) simp
    with hi q1 show False by (simp add: pow2_def)
  qed
  have k52: "k \<le> 52"
  proof (rule ccontr)
    assume "\<not> k \<le> 52"
    then have "pow2 53 \<le> pow2 k" by (intro pow2_mono) simp
    with lo q53 show False by linarith
  qed
  have e: "max (k - 52) (- 1074) = k - 52" using k0 by simp
  have pe: "pow2 (k - 52) = 1 / 2 ^ nat (52 - k)" using k52
    by (cases "k = 52") (simp_all add: pow2_def)
  have "q / pow2 (k - 52) = of_int (n * 2 ^ nat (52 - k))" by (simp add: pe q_def)
  then have r: "round_half_even (q / pow2 (k - 52)) = n * 2 ^ nat (52 - k)"
    by (simp only: round_half_even_of_int)
  have rback: "of_int (n * 2 ^ nat (52 - k)) * pow2 (k - 52) = q" by (simp add: pe q_def)
  have big: "\<not> 2 ^ 1024 \<le> \<bar>q\<bar>"
  proof -
    have "pow2 53 \<le> pow2 1024" by (intro pow2_mono) simp
    then have "\<bar>q\<bar> < pow2 1024" using q53 by linarith
    then show ?thesis by (simp add: pow2_def)
  qed
  have "fl q = Fin q" using q0 big unfolding fl_def k_def[symmetric] Let_def e r rback by simp
  then show ?thesis by (simp add: q_def)
qed

lemma floor_rat_numeral:
  "\<lfloor>(numeral a :: rat) / numeral b\<rfloor> = numeral a div numeral b"
  using floor_divide_of_int_eq[of "numeral a" "numeral b", where ?'a = rat] by simp


lemma fl_numeral: "(numeral n :: int) < 2 ^ 53 \<Longrightarrow> fl (numeral n) = Fin (numeral n)"
  using fl_of_int[of "numeral n"] by simp

lemma fl_0: "fl 0 = Fin 0"
  by (simp add: fl_def)

lemmas fl_eval = pow2_def round_half_even_def Let_def floor_rat_numeral

lemma fl_23_40: "fl (23 / 40) = Fin (2589569785738035 / 4503599627370496)"
  by (subst fl_normal[where k = "- 1"]) (simp_all add: fl_eval)

lemma fl_23_40_100:
  "fl (64739244643450875 / 1125899906842624) = Fin (8092405580431359 / 140737488355328)"
  by (subst fl_normal[where k = 5]) (simp_all add: fl_eval)

lemma fl_7_10: "fl (7 / 10) = Fin (3152519739159347 / 4503599627370496)"
  by (subst fl_normal[where k = "- 1"]) (simp_all add: fl_eval)

lemma fl_7_10_100: "fl (78812993478983675 / 1125899906842624) = Fin 70"
  by (subst fl_normal[where k = 6]) (simp_all add: fl_eval)

lemma fl_1_2: "fl (1 / 2) = Fin (1 / 2)"
  by (subst fl_normal[where k = "- 1"]) (simp_all add: fl_eval)

lemma round_half_even_cases:
  "round_half_even x = \<lfloor>x\<rfloor> \<and> x - of_int \<lfloor>x\<rfloor> \<le> 1 / 2 \<or>
   round_half_even x = \<lfloor>x\<rfloor> + 1 \<and> 1 / 2 \<le> x - of_int \<lfloor>x\<rfloor>"
  by (auto simp: round_half_even_def Let_def)

lemma round_half_even_error: "\<bar>of_int (round_half_even x) - x\<bar> \<le> 1 / 2"
proof -
  have "0 \<le> x - of_int \<lfloor>x\<rfloor>" "x - of_int \<lfloor>x\<rfloor> < 1" by linarith+
  with round_half_even_cases[of x] show ?thesis by auto
qed

lemma round_half_even_nonneg: "0 \<le> x \<Longrightarrow> 0 \<le> round_half_even x"
proof -
  assume "0 \<le> x"
  then have "0 \<le> \<lfloor>x\<rfloor>" by simp
  with round_half_even_cases[of x] show ?thesis by auto
qed

lemma round_half_even_le_int:
  assumes "x \<le> of_int j"
  shows "round_half_even x \<le> j"
proof -
  show ?thesis
  proof (cases "x = of_int j")
    case True
    then show ?thesis by (simp add: round_half_even_of_int)
  next
    case False
    with assms have "x < of_int j" by simp
    then have "\<lfloor>x\<rfloor> < j" by (simp add: floor_less_iff)
    with round_half_even_cases[of x] show ?thesis by auto
  qed
qed

text \<open>A value between 0 and a bound that lies on the grid of the value rounds to a value in the same range.\<close>

lemma fl_between:
  assumes "0 \<le> q" and "q \<le> B"
    and "B = of_int j * pow2 (max (ilog2 q - 52) (- 1074))" and "B < 2 ^ 1024"
  shows "\<exists>r. fl q = Fin r \<and> 0 \<le> r \<and> r \<le> B"
proof (cases "q = 0")
  case True
  then show ?thesis using assms by (auto simp: fl_0)
next
  case False
  define e where "e = max (ilog2 q - 52) (- 1074)"
  define m where "m = round_half_even (q / pow2 e)"
  have p: "0 < pow2 e" by (rule pow2_pos)
  have "q / pow2 e \<le> of_int j" using assms(2,3) p by (simp add: e_def field_simps)
  then have mj: "m \<le> j" unfolding m_def by (rule round_half_even_le_int)
  have "0 \<le> q / pow2 e" using assms(1) p by simp
  then have m0: "0 \<le> m" unfolding m_def by (rule round_half_even_nonneg)
  have r0: "0 \<le> of_int m * pow2 e" using m0 p by simp
  have "of_int m * pow2 e \<le> of_int j * pow2 e" using mj p by simp
  then have rB: "of_int m * pow2 e \<le> B" using assms(3) by (simp add: e_def)
  have "\<not> 2 ^ 1024 \<le> \<bar>of_int m * pow2 e\<bar>" using r0 rB assms(4) by linarith
  then have "fl q = Fin (of_int m * pow2 e)"
    using False unfolding fl_def Let_def e_def[symmetric] m_def[symmetric] by simp
  with r0 rB show ?thesis by blast
qed

lemma ilog2_le:
  assumes "q \<noteq> 0" "\<bar>q\<bar> < pow2 k"
  shows "ilog2 q < k"
proof (rule ccontr)
  assume "\<not> ilog2 q < k"
  then have "pow2 k \<le> pow2 (ilog2 q)" by (intro pow2_mono) simp
  with ilog2_bounds[OF assms(1)] assms(2) show False by linarith
qed

lemma fl_unit_interval:
  assumes "0 \<le> q" "q \<le> 1"
  shows "\<exists>r. fl q = Fin r \<and> 0 \<le> r \<and> r \<le> 1"
proof (cases "q = 0")
  case True
  then show ?thesis by (simp add: fl_0)
next
  case False
  define e where "e = max (ilog2 q - 52) (- 1074)"
  have "\<bar>q\<bar> < pow2 1" using assms by (simp add: pow2_def)
  then have "ilog2 q < 1" using False by (intro ilog2_le)
  then have e: "e \<le> 0" by (simp add: e_def)
  then have "(1::rat) = of_int (2 ^ nat (- e)) * pow2 e"
    by (cases "e = 0") (simp_all add: pow2_def)
  then have g: "1 = of_int (2 ^ nat (- e)) * pow2 (max (ilog2 q - 52) (- 1074))"
    by (simp only: e_def)
  have b: "(1::rat) < 2 ^ 1024" by simp
  show ?thesis by (rule fl_between[OF assms g b])
qed

lemma fl_percent_interval:
  assumes "0 \<le> q" "q \<le> 100"
  shows "\<exists>r. fl q = Fin r \<and> 0 \<le> r \<and> r \<le> 100"
proof (cases "q = 0")
  case True
  then show ?thesis by (simp add: fl_0)
next
  case False
  define e where "e = max (ilog2 q - 52) (- 1074)"
  have "\<bar>q\<bar> < pow2 7" using assms by (simp add: pow2_def)
  then have "ilog2 q < 7" using False by (intro ilog2_le)
  then have e: "e \<le> 0" by (simp add: e_def)
  then have "(100::rat) = of_int (100 * 2 ^ nat (- e)) * pow2 e"
    by (cases "e = 0") (simp_all add: pow2_def)
  then have g: "100 = of_int (100 * 2 ^ nat (- e)) * pow2 (max (ilog2 q - 52) (- 1074))"
    by (simp only: e_def)
  have b: "(100::rat) < 2 ^ 1024" by simp
  show ?thesis by (rule fl_between[OF assms g b])
qed


text \<open>In the normal range the result of an operation is within the relative error \<open>2 ^ - 53\<close>.\<close>

lemma fl_error:
  assumes "pow2 (- 1022) \<le> \<bar>q\<bar>" and "\<bar>q\<bar> < 2 ^ 1023"
  shows "\<exists>r. fl q = Fin r \<and> \<bar>r - q\<bar> \<le> \<bar>q\<bar> / 2 ^ 53"
proof -
  have q0: "q \<noteq> 0" using assms(1) pow2_pos[of "- 1022"] by auto
  define k where "k = ilog2 q"
  from ilog2_bounds[OF q0] have lo: "pow2 k \<le> \<bar>q\<bar>" and hi: "\<bar>q\<bar> < pow2 (k + 1)"
    by (simp_all add: k_def)
  have "- 1022 < k + 1"
  proof (rule ccontr)
    assume "\<not> - 1022 < k + 1"
    then have "pow2 (k + 1) \<le> pow2 (- 1022)" by (intro pow2_mono) simp
    with hi assms(1) show False by linarith
  qed
  then have e: "max (k - 52) (- 1074) = k - 52" by simp
  define m where "m = round_half_even (q / pow2 (k - 52))"
  define r where "r = of_int m * pow2 (k - 52)"
  have p: "0 < pow2 (k - 52)" by (rule pow2_pos)
  have "\<bar>of_int m - q / pow2 (k - 52)\<bar> \<le> 1 / 2"
    unfolding m_def by (rule round_half_even_error)
  then have "\<bar>of_int m - q / pow2 (k - 52)\<bar> * pow2 (k - 52) \<le> 1 / 2 * pow2 (k - 52)"
    using p by (intro mult_right_mono) simp_all
  moreover have "\<bar>of_int m - q / pow2 (k - 52)\<bar> * pow2 (k - 52) = \<bar>r - q\<bar>"
  proof -
    have "\<bar>of_int m - q / pow2 (k - 52)\<bar> * pow2 (k - 52)
          = \<bar>(of_int m - q / pow2 (k - 52)) * pow2 (k - 52)\<bar>"
      using p by (simp add: abs_mult)
    also have "(of_int m - q / pow2 (k - 52)) * pow2 (k - 52) = r - q"
      using p by (simp add: r_def field_simps)
    finally show ?thesis .
  qed
  ultimately have err: "\<bar>r - q\<bar> \<le> pow2 (k - 52) / 2" by simp
  have "pow2 k = pow2 (k - 52) * pow2 52" using pow2_add[of "k - 52" 52] by simp
  then have "pow2 (k - 52) / 2 = pow2 k / 2 ^ 53" by (simp add: pow2_def)
  also have "\<dots> \<le> \<bar>q\<bar> / 2 ^ 53" using lo by (simp add: divide_right_mono)
  finally have rel: "\<bar>r - q\<bar> \<le> \<bar>q\<bar> / 2 ^ 53" using err by linarith
  have "\<bar>q\<bar> / 2 ^ 53 \<le> \<bar>q\<bar>" by (simp add: field_simps)
  with rel have "\<bar>r\<bar> \<le> 2 * \<bar>q\<bar>" by linarith
  also have "\<dots> < 2 * 2 ^ 1023" using assms(2) by simp
  finally have "\<not> 2 ^ 1024 \<le> \<bar>r\<bar>" by simp
  then have "fl q = Fin r"
    using q0 unfolding fl_def Let_def k_def[symmetric] e m_def[symmetric] r_def[symmetric] by simp
  with rel show ?thesis by blast
qed


section \<open>Facts about the component\<close>

lemma run_Nil: "run [] st = st"
  by (simp add: run_def)

lemma run_Cons: "run (e # es) st = run es (apply_effect e st)"
  by (simp add: run_def)

lemma run_append: "run (es @ fs) st = run fs (run es st)"
  by (simp add: run_def)

lemma results_apply_effect: "results (apply_effect e st) = results st"
  by (cases e) simp_all

lemma results_run: "results (run es st) = results st"
  by (induction es arbitrary: st) (simp_all add: run_Nil run_Cons results_apply_effect)

lemma length_foldl_store_slot:
  "length (foldl (store_slot ps) slots order) = length slots"
  by (induction order arbitrary: slots) (simp_all add: store_slot_def)

lemma nth_foldl_store_slot:
  "length slots = length ps \<Longrightarrow> i < length ps \<Longrightarrow>
   foldl (store_slot ps) slots order ! i = (if i \<in> set order then Some (ps ! i) else slots ! i)"
proof (induction order arbitrary: slots)
  case Nil
  then show ?case by simp
next
  case (Cons j order)
  have len: "length (store_slot ps slots j) = length ps"
    using Cons.prems(1) by (simp add: store_slot_def)
  have "foldl (store_slot ps) slots (j # order) ! i =
        (if i \<in> set order then Some (ps ! i) else store_slot ps slots j ! i)"
    using Cons.IH[OF len Cons.prems(2)] by simp
  also have "\<dots> = (if i \<in> set (j # order) then Some (ps ! i) else slots ! i)"
    using Cons.prems by (auto simp: store_slot_def nth_list_update)
  finally show ?case .
qed

lemma Promise_all_settled:
  assumes "{..<length ps} \<subseteq> set order"
  shows "Promise_all order ps = Some ps"
proof -
  define slots where "slots = foldl (store_slot ps) (replicate (length ps) None) order"
  have len: "length slots = length ps"
    by (simp add: slots_def length_foldl_store_slot)
  have nth: "slots ! i = Some (ps ! i)" if "i < length ps" for i
    using that assms nth_foldl_store_slot[of "replicate (length ps) None" ps i order]
    by (auto simp: slots_def)
  have eq: "slots = map Some ps"
    by (rule nth_equalityI) (simp_all add: len nth)
  show ?thesis
    unfolding Promise_all_def slots_def[symmetric] eq
    by (simp add: list_all_iff comp_def)
qed

lemma Promise_all_pending:
  assumes "i < length ps" "i \<notin> set order"
  shows "Promise_all order ps = None"
proof -
  define slots where "slots = foldl (store_slot ps) (replicate (length ps) None) order"
  have len: "length slots = length ps"
    by (simp add: slots_def length_foldl_store_slot)
  have "slots ! i = None"
    using assms nth_foldl_store_slot[of "replicate (length ps) None" ps i order]
    by (simp add: slots_def)
  then have "None \<in> set slots" using assms(1) len by (metis nth_mem)
  then show ?thesis
    unfolding Promise_all_def slots_def[symmetric] by (auto simp: list_all_iff)
qed

lemma length_link_outcomes: "length (link_outcomes net ls) = length ls"
  by (simp add: link_outcomes_def)

lemma nth_link_outcomes: "i < length ls \<Longrightarrow> link_outcomes net ls ! i = analyseLink (net i (href (ls ! i))) (ls ! i)"
  by (simp add: link_outcomes_def nth_enumerate_eq)

lemma linksWithAnalysis_eq:
  "linksWithAnalysis net order ls =
     (if {..<length ls} \<subseteq> set order then Some (link_outcomes net ls) else None)"
proof (cases "{..<length ls} \<subseteq> set order")
  case True
  then show ?thesis
    by (simp add: linksWithAnalysis_def length_link_outcomes Promise_all_settled)
next
  case False
  then obtain i where "i < length ls" "i \<notin> set order" by auto
  then show ?thesis using False
    by (simp add: linksWithAnalysis_def length_link_outcomes Promise_all_pending[of i])
qed

lemma link_of_analyseLink: "link_of (analyseLink settled link) = link"
  by (simp add: analyseLink_def split: sum.splits)

lemma analysis_of_analyseLink:
  "analysis_of (analyseLink settled link) =
     (case fetchAnalysis settled of Inl e \<Rightarrow> None | Inr a \<Rightarrow> Some a)"
  by (simp add: analyseLink_def split: sum.splits)

lemma messageListener_sendLinks:
  assumes "action message = ''sendLinks''"
  shows "messageListener net order message =
     (if {..<length (ContentScriptMessage.links message)} \<subseteq> set order
      then Some (map (\<lambda>link. Fetch (href link)) (ContentScriptMessage.links message)
                 @ [SetLinks (link_outcomes net (ContentScriptMessage.links message)),
                    SetError None, SendResponse goodbye])
      else None)"
  using assms
  by (simp add: messageListener_def messageListener_sync_def messageListener_resume_def
        linksWithAnalysis_eq)

lemma messageListener_other:
  assumes "action message \<noteq> ''sendLinks''"
  shows "messageListener net order message = Some [SendResponse goodbye]"
  using assms
  by (simp add: messageListener_def messageListener_sync_def messageListener_resume_def)

lemma fetchAnalysis_ok: "ok response \<Longrightarrow> fetchAnalysis (Inr response) = json response"
  by (simp add: fetchAnalysis_def)

lemma run_injectScript_thrown:
  "run (injectScript (Inl e)) st = st\<lparr>isInjecting := False, Sidebar.error := Some (errorMessage e)\<rparr>"
  by (simp add: injectScript_def injectScript_sync_def injectScript_resume_def injectScript_try_def
        run_Cons run_Nil)

lemma reachable_results: "reachable st \<Longrightarrow> results st = initial_results"
  by (induction rule: reachable.induct) (simp_all add: results_run initial_def)

section \<open>Facts about the aggregation\<close>

text \<open>
  On a non-empty map of valid scores the sum and the maximum are exact, so that the result
  is \<open>Math.round\<close> of the twice rounded percentage.
\<close>

lemma valid_scoreE:
  assumes "valid_score x"
  obtains k :: int where "0 \<le> k" "k \<le> 5" "x = Fin (of_int k)"
proof -
  from assms consider "x = Fin (of_int 0)" | "x = Fin (of_int 1)" | "x = Fin (of_int 2)"
    | "x = Fin (of_int 3)" | "x = Fin (of_int 4)" | "x = Fin (of_int 5)"
    by (auto simp: valid_score_def)
  then show thesis
    by cases (rule that[of 0] that[of 1] that[of 2] that[of 3] that[of 4] that[of 5]; simp)+
qed

lemma the_Fin_valid_score:
  assumes "valid_score x"
  shows "x = Fin (the_Fin x) \<and> (\<exists>k::int. the_Fin x = of_int k \<and> 0 \<le> k \<and> k \<le> 5)"
  using assms by (rule valid_scoreE) auto

lemma sum_valid_scores:
  assumes "list_all (\<lambda>sd. valid_score (score sd)) sds"
  shows "\<exists>t::int. sum_list (map (\<lambda>sd. the_Fin (score sd)) sds) = of_int t \<and>
           0 \<le> t \<and> t \<le> 5 * int (length sds)"
  using assms
proof (induction sds)
  case Nil
  then show ?case by simp
next
  case (Cons sd sds)
  then obtain t :: int where t: "sum_list (map (\<lambda>sd. the_Fin (score sd)) sds) = of_int t"
    "0 \<le> t" "t \<le> 5 * int (length sds)" by auto
  from Cons.prems obtain k :: int where k: "the_Fin (score sd) = of_int k" "0 \<le> k" "k \<le> 5"
    using the_Fin_valid_score[of "score sd"] by auto
  have "sum_list (map (\<lambda>sd. the_Fin (score sd)) (sd # sds)) = of_int (k + t)"
    using t(1) k(1) by simp
  moreover have "0 \<le> k + t" "k + t \<le> 5 * int (length (sd # sds))"
    using t k by simp_all
  ultimately show ?case by blast
qed

lemma foldl_valid_scores:
  assumes "list_all (\<lambda>sd. valid_score (score sd)) sds"
    and "0 \<le> a" and "a + 5 * int (length sds) < 2 ^ 53"
  shows "foldl (\<lambda>sum scoreData. js_add sum (score scoreData)) (Fin (of_int a)) sds
         = Fin (of_int a + sum_list (map (\<lambda>sd. the_Fin (score sd)) sds))"
  using assms
proof (induction sds arbitrary: a)
  case Nil
  then show ?case by simp
next
  case (Cons sd sds)
  from Cons.prems(1) obtain k :: int where k: "score sd = Fin (of_int k)" "0 \<le> k" "k \<le> 5"
    by (auto elim: valid_scoreE)
  have "\<bar>a + k\<bar> < 2 ^ 53" using Cons.prems(2,3) k by simp
  then have "fl (of_int (a + k)) = Fin (of_int (a + k))" by (rule fl_of_int)
  then have step: "js_add (Fin (of_int a)) (score sd) = Fin (of_int (a + k))"
    by (simp add: k(1))
  have ih: "foldl (\<lambda>sum scoreData. js_add sum (score scoreData)) (Fin (of_int (a + k))) sds
        = Fin (of_int (a + k) + sum_list (map (\<lambda>sd. the_Fin (score sd)) sds))"
    using Cons.prems k by (intro Cons.IH) simp_all
  have "foldl (\<lambda>sum scoreData. js_add sum (score scoreData)) (Fin (of_int a)) (sd # sds)
        = foldl (\<lambda>sum scoreData. js_add sum (score scoreData)) (js_add (Fin (of_int a)) (score sd)) sds"
    by simp
  also have "\<dots> = Fin (of_int (a + k) + sum_list (map (\<lambda>sd. the_Fin (score sd)) sds))"
    by (simp only: step ih)
  also have "\<dots> = Fin (of_int a + sum_list (map (\<lambda>sd. the_Fin (score sd)) (sd # sds)))"
    by (simp add: k(1))
  finally show ?case .
qed

lemma calculateTotalScore_valid:
  assumes "Results.scores r \<noteq> []"
    and "list_all (\<lambda>sd. valid_score (score sd)) (Object_values (Results.scores r))"
    and "length (Results.scores r) < 2 ^ 50"
  shows "calculateTotalScore r =
           Math_round (js_mul (fl (sum_list (map (\<lambda>sd. the_Fin (score sd)) (Object_values (Results.scores r)))
                                   / (5 * of_nat (length (Results.scores r))))) (Fin 100))"
proof -
  define sds where "sds = Object_values (Results.scores r)"
  define n where "n = length (Results.scores r)"
  have len: "length sds = n" by (simp add: sds_def n_def Object_values_def)
  have n0: "0 < n" using assms(1) by (simp add: n_def)
  have "5 * int n < 5 * 2 ^ 50" using assms(3) unfolding n_def
    by (metis mult_less_cancel_left_pos of_nat_less_numeral_power_cancel_iff zero_less_numeral)
  then have n53: "5 * int n < 2 ^ 53" by simp
  have tot: "foldl (\<lambda>sum scoreData. js_add sum (score scoreData)) (Fin 0) sds
        = Fin (sum_list (map (\<lambda>sd. the_Fin (score sd)) sds))"
    using foldl_valid_scores[of sds 0] assms(2) n53 by (simp add: sds_def[symmetric] len)
  have "\<bar>5 * int n\<bar> < 2 ^ 53" using n53 by simp
  then have "fl (of_int (5 * int n)) = Fin (of_int (5 * int n))" by (rule fl_of_int)
  then have mx: "js_mul (Fin (of_nat n)) (Fin 5) = Fin (5 * of_nat n)"
    by (simp add: mult.commute)
  have dv: "js_div (Fin (sum_list (map (\<lambda>sd. the_Fin (score sd)) sds))) (Fin (5 * of_nat n))
        = fl (sum_list (map (\<lambda>sd. the_Fin (score sd)) sds) / (5 * of_nat n))"
    using n0 by simp
  show ?thesis
    unfolding calculateTotalScore_def Let_def sds_def[symmetric] len tot mx dv
    by (simp add: n_def)
qed

lemma calculateTotalScore_range:
  assumes "Results.scores r \<noteq> []"
    and "list_all (\<lambda>sd. valid_score (score sd)) (Object_values (Results.scores r))"
    and "length (Results.scores r) < 2 ^ 50"
  shows "\<exists>k::int. calculateTotalScore r = Fin (of_int k) \<and> 0 \<le> k \<and> k \<le> 100"
proof -
  define sds where "sds = Object_values (Results.scores r)"
  define n where "n = length (Results.scores r)"
  have len: "length sds = n" by (simp add: sds_def n_def Object_values_def)
  have n0: "0 < n" using assms(1) by (simp add: n_def)
  from sum_valid_scores[OF assms(2)] obtain t :: int
    where t: "sum_list (map (\<lambda>sd. the_Fin (score sd)) sds) = of_int t" "0 \<le> t" "t \<le> 5 * int n"
    by (auto simp: sds_def[symmetric] len)
  define x :: rat where "x = of_int t / (5 * of_nat n)"
  have x0: "0 \<le> x" using t(2) by (simp add: x_def)
  have "(of_int t :: rat) \<le> of_int (5 * int n)" using t(3) by (simp only: of_int_le_iff)
  then have x1: "x \<le> 1" using n0 by (simp add: x_def)
  from fl_unit_interval[OF x0 x1] obtain r1 where r1: "fl x = Fin r1" "0 \<le> r1" "r1 \<le> 1"
    by blast
  have "0 \<le> r1 * 100" "r1 * 100 \<le> 100" using r1 by simp_all
  from fl_percent_interval[OF this] obtain r2 where r2: "fl (r1 * 100) = Fin r2" "0 \<le> r2" "r2 \<le> 100"
    by blast
  have "calculateTotalScore r = Math_round (js_mul (fl x) (Fin 100))"
    using calculateTotalScore_valid[OF assms] by (simp add: x_def t(1)[unfolded sds_def] n_def)
  then have c: "calculateTotalScore r = Fin (of_int \<lfloor>r2 + 1 / 2\<rfloor>)"
    by (simp add: r1(1) r2(1))
  have "0 \<le> \<lfloor>r2 + 1 / 2\<rfloor>" using r2(2) by simp
  moreover have "\<lfloor>r2 + 1 / 2\<rfloor> \<le> 100"
  proof -
    have "r2 + 1 / 2 < of_int 101" using r2(3) by simp
    then have "\<lfloor>r2 + 1 / 2\<rfloor> < 101" by (simp only: floor_less_iff)
    then show ?thesis by simp
  qed
  ultimately show ?thesis using c by blast
qed


text \<open>
  Both roundings together move the percentage by less than \<open>2 ^ - 45\<close>, and an exact
  percentage that is not half-way between two integers is at least \<open>1 / (2 * count)\<close>
  away from the next half-way point.
\<close>

lemma spec_exact_Object_values:
  "spec_exact r = 100 * sum_list (map (\<lambda>sd. the_Fin (score sd)) (Object_values (Results.scores r)))
                  / (5 * of_nat (length (Results.scores r)))"
  by (simp add: spec_exact_def Object_values_def case_prod_unfold comp_def)

lemma floor_near:
  fixes x y :: rat
  assumes "of_int j + d \<le> x" and "x + d \<le> of_int j + 1" and "\<bar>y - x\<bar> < d"
  shows "\<lfloor>y\<rfloor> = j"
proof (rule floor_unique)
  show "of_int j \<le> y" using assms by linarith
  show "y < of_int j + 1" using assms by linarith
qed

lemma int_quotient_ge:
  fixes a :: int and n :: nat
  assumes "0 < (of_int a :: rat) / of_nat n" and "0 < n"
  shows "1 / of_nat n \<le> (of_int a :: rat) / of_nat n"
proof -
  have "0 < (of_int a :: rat)" using assms by (simp add: zero_less_divide_iff)
  then have "1 \<le> a" by simp
  then have "(1::rat) \<le> of_int a" by (metis of_int_1_le_iff)
  then show ?thesis using assms(2) by (simp add: divide_right_mono)
qed

lemma calculateTotalScore_off_ties:
  assumes "Results.scores r \<noteq> []"
    and "list_all (\<lambda>sd. valid_score (score sd)) (Object_values (Results.scores r))"
    and "length (Results.scores r) < 2 ^ 44"
    and "frac (spec_exact r) \<noteq> 1 / 2"
  shows "calculateTotalScore r = Fin (of_int (spec_percentage r))"
proof -
  define sds where "sds = Object_values (Results.scores r)"
  define n where "n = length (Results.scores r)"
  have len: "length sds = n" by (simp add: sds_def n_def Object_values_def)
  have n0: "0 < n" using assms(1) by (simp add: n_def)
  have n44: "n < 2 ^ 44" using assms(3) by (simp add: n_def)
  then have n50: "length (Results.scores r) < 2 ^ 50"
    unfolding n_def by (rule less_trans) simp
  have rn: "(of_nat n :: rat) < 2 ^ 44" using n44 by (metis of_nat_less_numeral_power_cancel_iff)
  have rn0: "(0::rat) < of_nat n" using n0 by simp
  from sum_valid_scores[OF assms(2)] obtain t :: int
    where t: "sum_list (map (\<lambda>sd. the_Fin (score sd)) sds) = of_int t" "0 \<le> t" "t \<le> 5 * int n"
    by (auto simp: sds_def[symmetric] len)
  define x :: rat where "x = of_int t / (5 * of_nat n)"
  define X :: rat where "X = 100 * x"
  have X: "spec_exact r = X"
    by (simp add: spec_exact_Object_values X_def x_def t(1)[unfolded sds_def] n_def)
  have calc: "calculateTotalScore r = Math_round (js_mul (fl x) (Fin 100))"
    using calculateTotalScore_valid[OF assms(1,2) n50]
    by (simp add: x_def t(1)[unfolded sds_def] n_def)
  define j where "j = \<lfloor>X + 1 / 2\<rfloor>"
  have sp: "spec_percentage r = j"
    by (simp add: spec_percentage_def X round_def j_def)
  show ?thesis
  proof (cases "t = 0")
    case True
    then have "x = 0" "X = 0" by (simp_all add: x_def X_def)
    then show ?thesis by (simp add: calc sp j_def fl_0)
  next
    case False
    with t(2) have t1: "1 \<le> t" by simp
    then have rt1: "(1::rat) \<le> of_int t" by (metis of_int_1_le_iff)
    have x0: "0 < x" using rt1 rn0 by (simp add: x_def)
    have "(of_int t :: rat) \<le> of_int (5 * int n)" using t(3) by (simp only: of_int_le_iff)
    then have x1: "x \<le> 1" using n0 by (simp add: x_def)
    have "1 / (5 * of_nat n) \<le> x"
      unfolding x_def using rt1 rn0 by (intro divide_right_mono) simp_all
    moreover have "(1::rat) / (5 * 2 ^ 44) < 1 / (5 * of_nat n)"
      using rn rn0 by (simp add: field_simps)
    ultimately have xlow: "1 / (5 * 2 ^ 44) < x" by linarith
    have tiny: "pow2 (- 1022) \<le> 1 / (20 * 2 ^ 44)" by (simp add: pow2_def)
    have "pow2 (- 1022) \<le> \<bar>x\<bar>" using xlow tiny x0 by linarith
    moreover have "\<bar>x\<bar> < 2 ^ 1023"
    proof -
      have "(1::rat) < 2 ^ 1023" by simp
      with x0 x1 show ?thesis by linarith
    qed
    ultimately obtain r1 where r1: "fl x = Fin r1" "\<bar>r1 - x\<bar> \<le> \<bar>x\<bar> / 2 ^ 53"
      using fl_error by blast
    from fl_unit_interval[of x] x0 x1 r1(1) have r1b: "0 \<le> r1" "r1 \<le> 1" by auto
    have e1: "\<bar>r1 - x\<bar> \<le> x / 2 ^ 53" using r1(2) x0 by simp
    have "x / 2 ^ 53 \<le> x / 2" using x0 by (simp add: field_simps)
    with e1 have r1low: "x / 2 \<le> r1" by linarith
    define q2 where "q2 = r1 * 100"
    have q2low: "1 / (20 * 2 ^ 44) < q2" using r1low xlow by (simp add: q2_def)
    have q2b: "0 < q2" "q2 \<le> 100" using r1low x0 r1b by (simp_all add: q2_def)
    have "pow2 (- 1022) \<le> \<bar>q2\<bar>" using q2low tiny q2b by linarith
    moreover have "\<bar>q2\<bar> < 2 ^ 1023"
    proof -
      have "(100::rat) < 2 ^ 1023" by simp
      with q2b show ?thesis by linarith
    qed
    ultimately obtain r2 where r2: "fl q2 = Fin r2" "\<bar>r2 - q2\<bar> \<le> \<bar>q2\<bar> / 2 ^ 53"
      using fl_error by blast
    have e2: "\<bar>r2 - q2\<bar> \<le> 100 / 2 ^ 53"
    proof -
      have "\<bar>q2\<bar> / 2 ^ 53 \<le> 100 / 2 ^ 53" using q2b by (simp add: divide_right_mono)
      with r2(2) show ?thesis by linarith
    qed
    have e3: "\<bar>q2 - X\<bar> \<le> 100 / 2 ^ 53"
    proof -
      have "q2 - X = 100 * (r1 - x)" by (simp add: q2_def X_def)
      then have "\<bar>q2 - X\<bar> = 100 * \<bar>r1 - x\<bar>" by (simp only: abs_mult)
      also have "\<dots> \<le> 100 * (x / 2 ^ 53)" using e1 by simp
      also have "\<dots> \<le> 100 / 2 ^ 53" using x1 by (simp add: field_simps)
      finally show ?thesis .
    qed
    have err: "\<bar>r2 - X\<bar> \<le> 200 / 2 ^ 53" using e2 e3 by linarith
    have half: "(200::rat) / 2 ^ 53 < 1 / (2 * of_nat n)"
    proof -
      have "(200::rat) / 2 ^ 53 < 1 / (2 * 2 ^ 44)" by simp
      also have "\<dots> < 1 / (2 * of_nat n)" using rn rn0 by (simp add: field_simps)
      finally show ?thesis .
    qed
    have Xn: "X = of_int (20 * t) / of_nat n" using rn0 by (simp add: X_def x_def)
    have jle: "of_int j \<le> X + 1 / 2" "X + 1 / 2 < of_int j + 1"
      unfolding j_def by linarith+
    have notint: "X + 1 / 2 \<noteq> of_int j"
    proof
      assume "X + 1 / 2 = of_int j"
      then have Xj: "X = of_int (j - 1) + 1 / 2" by simp
      then have "\<lfloor>X\<rfloor> = j - 1" by (intro floor_unique) simp_all
      with Xj have "frac X = 1 / 2" by (simp add: frac_def)
      with assms(4) X show False by simp
    qed
    have lowgap: "of_int j + 1 / (2 * of_nat n) \<le> X + 1 / 2"
    proof -
      have eq: "X + 1 / 2 - of_int j = of_int (40 * t + int n - 2 * int n * j) / of_nat (2 * n)"
        using rn0 by (simp add: Xn field_simps)
      have "0 < X + 1 / 2 - of_int j" using jle(1) notint by linarith
      then have "0 < (of_int (40 * t + int n - 2 * int n * j) :: rat) / of_nat (2 * n)"
        by (simp only: eq)
      then have "1 / of_nat (2 * n) \<le> (of_int (40 * t + int n - 2 * int n * j) :: rat) / of_nat (2 * n)"
        using n0 by (intro int_quotient_ge) simp_all
      then have "1 / of_nat (2 * n) \<le> X + 1 / 2 - of_int j" by (simp only: eq)
      then show ?thesis by simp
    qed
    have highgap: "X + 1 / 2 + 1 / (2 * of_nat n) \<le> of_int j + 1"
    proof -
      have eq: "of_int j + 1 - (X + 1 / 2) = of_int (2 * int n * j + int n - 40 * t) / of_nat (2 * n)"
        using rn0 by (simp add: Xn field_simps)
      have "0 < of_int j + 1 - (X + 1 / 2)" using jle(2) by linarith
      then have "0 < (of_int (2 * int n * j + int n - 40 * t) :: rat) / of_nat (2 * n)"
        by (simp only: eq)
      then have "1 / of_nat (2 * n) \<le> (of_int (2 * int n * j + int n - 40 * t) :: rat) / of_nat (2 * n)"
        using n0 by (intro int_quotient_ge) simp_all
      then have "1 / of_nat (2 * n) \<le> of_int j + 1 - (X + 1 / 2)" by (simp only: eq)
      then show ?thesis by simp
    qed
    have "\<bar>(r2 + 1 / 2) - (X + 1 / 2)\<bar> < 1 / (2 * of_nat n)" using err half by simp
    with lowgap highgap have "\<lfloor>r2 + 1 / 2\<rfloor> = j" by (rule floor_near)
    then show ?thesis
      by (simp add: calc r1(1) r2(1)[unfolded q2_def] sp)
  qed
qed


section \<open>Facts about the concrete inputs\<close>

lemma total_initial_results: "calculateTotalScore initial_results = Fin 70"
  by (simp add: calculateTotalScore_def Object_values_def initial_results_def
        fl_numeral fl_0 fl_7_10 fl_7_10_100 floor_rat_numeral)

lemma scoreClass_70: "scoreClass (Fin 70) = ''text-blue-600''"
  by (simp add: scoreClass_def)

lemma links_run_listener:
  "Sidebar.links (run (fs @ [SetLinks ls, SetError None, SendResponse r]) st) = ls"
  by (simp add: run_append run_Cons run_Nil)

lemma error_run_listener:
  "Sidebar.error (run (fs @ [SetLinks ls, SetError None, SendResponse r]) st) = None"
  by (simp add: run_append run_Cons run_Nil)

lemma scenario_complete: "{..<length [link_tos, link_priv]} \<subseteq> set [0, Suc 0]"
  by (auto simp: less_Suc_eq)

lemma scenario_pending: "\<not> {..<length [link_tos, link_priv]} \<subseteq> set [0]"
  by auto

lemma link_outcomes_scenario:
  "link_outcomes net_scenario [link_tos, link_priv] = [LinkWithAnalysis link_tos analysis_tos, Link link_priv]"
  by (simp add: link_outcomes_def enumerate_simps analyseLink_def fetchAnalysis_def net_scenario_def
        link_tos_def link_priv_def)

lemma messageListener_scenario:
  "messageListener net_scenario [0, Suc 0] message_scenario =
     Some [Fetch ''https://x.com/tos'', Fetch ''https://x.com/priv'',
           SetLinks [LinkWithAnalysis link_tos analysis_tos, Link link_priv],
           SetError None, SendResponse goodbye]"
  using scenario_complete
  by (simp add: messageListener_sendLinks message_scenario_def link_outcomes_scenario)
     (simp add: link_tos_def link_priv_def)

lemma messageListener_scenario_pending:
  "messageListener net_scenario [0] message_scenario = None"
  using scenario_pending
  by (simp add: messageListener_sendLinks message_scenario_def)

lemma scenario_state_eq:
  "scenario_state = initial\<lparr>Sidebar.links := [LinkWithAnalysis link_tos analysis_tos, Link link_priv]\<rparr>"
  by (simp add: scenario_state_def messageListener_scenario run_Cons run_Nil initial_def)

lemma reachable_scenario_state: "reachable scenario_state"
proof -
  have "reachable (run [Fetch ''https://x.com/tos'', Fetch ''https://x.com/priv'',
           SetLinks [LinkWithAnalysis link_tos analysis_tos, Link link_priv],
           SetError None, SendResponse goodbye] initial)"
    using reachable.init messageListener_scenario by (rule reachable.notify)
  then show ?thesis by (simp add: scenario_state_def messageListener_scenario)
qed

lemma messageListener_one:
  "messageListener net_nine [0] message_one =
     Some [Fetch ''https://x.com/tos'', SetLinks [LinkWithAnalysis link_tos analysis_nine],
           SetError None, SendResponse goodbye]"
  by (simp add: messageListener_sendLinks message_one_def link_outcomes_def enumerate_simps
        analyseLink_def fetchAnalysis_def net_nine_def lessThan_Suc)
     (simp add: link_tos_def)

section \<open>The claims\<close>

subsection \<open>The aggregation\<close>

text \<open>
  C1. For every non-empty category map whose scores are integers from 0 to 5,
  \<open>calculateTotalScore\<close> is to return the integer percentage
  \<open>round(100 * sum(scores) / (5 * count))\<close>, which lies between 0 and 100.
  The result does lie between 0 and 100 (\<open>calculateTotalScore_range\<close>) and it is the
  rounded exact percentage whenever the exact percentage is not half-way between two
  integers (\<open>calculateTotalScore_off_ties\<close>). At a tie it can be one less: the function
  divides the sum by the maximum first and multiplies by 100 afterwards, both in
  binary64. For eight categories with the scores 5, 5, 5, 5, 3, 0, 0, 0 the exact
  percentage is 57.5, which rounds to 58; the quotient 23/40 is not a binary64 value, the
  product is 57.49999999999999 and the function returns 57.
\<close>

theorem calculateTotalScore_eight_categories:
  "calculateTotalScore eight_categories = Fin 57 \<and> spec_percentage eight_categories = 58"
proof
  show "calculateTotalScore eight_categories = Fin 57"
    by (simp add: calculateTotalScore_def Object_values_def eight_categories_def
          fl_numeral fl_0 fl_23_40 fl_23_40_100 floor_rat_numeral)
  show "spec_percentage eight_categories = 58"
    by (simp add: spec_percentage_def spec_exact_def eight_categories_def round_def floor_rat_numeral)
qed

text \<open>
  C3. Applied to a map without categories, \<open>calculateTotalScore\<close> is claimed to fail
  with an error and never to return a number. The function has no failing path: the sum
  0 is divided by the maximum 0, which is \<open>NaN\<close>, and \<open>NaN\<close> is what it returns.
\<close>

theorem calculateTotalScore_no_categories:
  "Results.scores r = [] \<Longrightarrow> calculateTotalScore r = NaN"
  by (simp add: calculateTotalScore_def Object_values_def fl_0)

theorem calculateTotalScore_no_categories_witness:
  "Results.scores \<lparr>Results.scores = []\<rparr> = [] \<and> calculateTotalScore \<lparr>Results.scores = []\<rparr> = NaN"
  using calculateTotalScore_no_categories[of "\<lparr>Results.scores = []\<rparr>"] by simp

text \<open>The claim as stated fails on the empty map: the value returned is \<open>NaN\<close>.\<close>

theorem empty_map_returns_NaN:
  "Math_round (js_mul (js_div (Fin 0) (js_mul (Fin 0) (Fin 5))) (Fin 100)) = NaN
   \<and> calculateTotalScore \<lparr>Results.scores = []\<rparr> = NaN"
  by (simp add: calculateTotalScore_def Object_values_def fl_0)

text \<open>
  C4. The class of the composite percentage \<open>p\<close> is the red one (low trust) when
  \<open>p \<le> 40\<close>, the blue one (moderate) when \<open>40 < p \<le> 80\<close> and the purple one (high
  trust) when \<open>80 < p\<close>; so 40 is red, 41 and 80 are blue and 81 is purple.
\<close>

theorem scoreClass_tiers:
  "(q \<le> 40 \<longrightarrow> scoreClass (Fin q) = ''text-red-500'') \<and>
   (40 < q \<and> q \<le> 80 \<longrightarrow> scoreClass (Fin q) = ''text-blue-600'') \<and>
   (80 < q \<longrightarrow> scoreClass (Fin q) = ''text-purple-500'') \<and>
   scoreClass (Fin 40) = ''text-red-500'' \<and>
   scoreClass (Fin 41) = ''text-blue-600'' \<and>
   scoreClass (Fin 80) = ''text-blue-600'' \<and>
   scoreClass (Fin 81) = ''text-purple-500''"
  by (simp add: scoreClass_def)

theorem scoreClass_tiers_witness:
  "((30::rat) \<le> 40 \<and> scoreClass (Fin 30) = ''text-red-500'') \<and>
   ((40::rat) < 60 \<and> (60::rat) \<le> 80 \<and> scoreClass (Fin 60) = ''text-blue-600'') \<and>
   ((80::rat) < 95 \<and> scoreClass (Fin 95) = ''text-purple-500'')"
  using scoreClass_tiers[of 30] scoreClass_tiers[of 60] scoreClass_tiers[of 95] by simp

subsection \<open>The injection command\<close>

text \<open>
  C7. When \<open>sendMessage\<close> throws and when the response is not a \<open>success\<close> (it says
  \<open>failure\<close>), \<open>injectScript\<close> leaves the same kind of state: \<open>error\<close> holds a
  string and \<open>isInjecting\<close> is false again, nothing else has changed. For such a response
  the string is the response's \<open>error\<close>, or \<open>Failed to inject content script\<close> when that
  is absent or empty, so it is never empty. For a thrown value that is no \<open>Error\<close> it is
  \<open>Unknown error occurred\<close>. For a thrown \<open>Error\<close> it is the message as thrown: an
  empty message leaves the empty string in \<open>error\<close>, and then no error is shown.
\<close>

theorem injectScript_failure:
  "run (injectScript (Inl (Error m))) st = st\<lparr>isInjecting := False, Sidebar.error := Some m\<rparr> \<and>
   errorBox (render (run (injectScript (Inl (Error m))) st)) = (if m = [] then None else Some m) \<and>
   run (injectScript (Inl NonError)) st
     = st\<lparr>isInjecting := False, Sidebar.error := Some ''Unknown error occurred''\<rparr> \<and>
   (status r \<noteq> ''success'' \<longrightarrow>
      run (injectScript (Inr (Some r))) st
        = st\<lparr>isInjecting := False,
             Sidebar.error := Some (case InjectionResponse.error r of
                                      None \<Rightarrow> ''Failed to inject content script''
                                    | Some x \<Rightarrow> if x = [] then ''Failed to inject content script'' else x)\<rparr> \<and>
      (case InjectionResponse.error r of
         None \<Rightarrow> ''Failed to inject content script''
       | Some x \<Rightarrow> if x = [] then ''Failed to inject content script'' else x) \<noteq> [])"
proof -
  have 1: "run (injectScript (Inl (Error m))) st = st\<lparr>isInjecting := False, Sidebar.error := Some m\<rparr>"
    by (simp add: run_injectScript_thrown errorMessage_def)
  have 2: "errorBox (render (run (injectScript (Inl (Error m))) st)) = (if m = [] then None else Some m)"
    by (simp add: 1 render_def)
  have 3: "run (injectScript (Inl NonError)) st
     = st\<lparr>isInjecting := False, Sidebar.error := Some ''Unknown error occurred''\<rparr>"
    by (simp add: run_injectScript_thrown errorMessage_def)
  have 4: "run (injectScript (Inr (Some r))) st
        = st\<lparr>isInjecting := False,
             Sidebar.error := Some (case InjectionResponse.error r of
                                      None \<Rightarrow> ''Failed to inject content script''
                                    | Some x \<Rightarrow> if x = [] then ''Failed to inject content script'' else x)\<rparr>"
    if "status r \<noteq> ''success''"
    using that
    by (simp add: injectScript_def injectScript_sync_def injectScript_resume_def injectScript_try_def
          run_Cons run_Nil errorMessage_def)
  have 5: "(case InjectionResponse.error r of
         None \<Rightarrow> ''Failed to inject content script''
       | Some x \<Rightarrow> if x = [] then ''Failed to inject content script'' else x) \<noteq> []"
    by (simp split: option.splits)
  from 1 2 3 4 5 show ?thesis by blast
qed

theorem injectScript_failure_witness:
  "run (injectScript (Inl (Error ''Could not establish connection''))) initial
     = initial\<lparr>isInjecting := False, Sidebar.error := Some ''Could not establish connection''\<rparr> \<and>
   errorBox (render (run (injectScript (Inl (Error ''Could not establish connection''))) initial))
     = Some ''Could not establish connection'' \<and>
   run (injectScript (Inl NonError)) initial
     = initial\<lparr>isInjecting := False, Sidebar.error := Some ''Unknown error occurred''\<rparr> \<and>
   status \<lparr>status = ''failure'', error = Some ''no active tab''\<rparr> \<noteq> ''success'' \<and>
   run (injectScript (Inr (Some \<lparr>status = ''failure'', error = Some ''no active tab''\<rparr>))) initial
     = initial\<lparr>isInjecting := False, Sidebar.error := Some ''no active tab''\<rparr>"
  using injectScript_failure[of "''Could not establish connection''" initial
          "\<lparr>status = ''failure'', error = Some ''no active tab''\<rparr>"]
  by (simp add: render_def)

text \<open>
  The claim as stated fails when \<open>sendMessage\<close> throws an \<open>Error\<close> with an empty
  message: the reason stored is empty and the panel shows no error.
\<close>

theorem thrown_reason_can_be_empty:
  "Sidebar.error (run (injectScript (Inl (Error []))) initial) = Some [] \<and>
   errorBox (render (run (injectScript (Inl (Error []))) initial)) = None \<and>
   isInjecting (run (injectScript (Inl (Error []))) initial) = False"
  by (simp add: run_injectScript_thrown errorMessage_def render_def)

subsection \<open>The message listener\<close>

text \<open>
  C2. When every fetch of a batch settles, in whatever order, the batch analysis gives
  one entry per link, in the order of the links: the entry at index \<open>i\<close> is link \<open>i\<close>,
  with the analysis attached exactly when the fetch of link \<open>i\<close> itself succeeded. So a
  fetch that throws changes no other entry and does not abort the batch: with one
  failing fetch among \<open>N\<close> links there are \<open>N\<close> entries and the other \<open>N - 1\<close> carry their
  analysis. The result is the same for every order of settlement.
\<close>

theorem batch_length_order_isolation:
  assumes "{..<length ls} \<subseteq> set order"
  shows "\<exists>res. linksWithAnalysis net order ls = Some res \<and> length res = length ls \<and>
           (\<forall>i<length ls. link_of (res ! i) = ls ! i \<and>
              analysis_of (res ! i) =
                (case fetchAnalysis (net i (href (ls ! i))) of Inl e \<Rightarrow> None | Inr a \<Rightarrow> Some a)) \<and>
           (\<forall>j<length ls.
              (\<forall>i<length ls. i \<noteq> j \<longrightarrow> (\<exists>a. fetchAnalysis (net i (href (ls ! i))) = Inr a)) \<longrightarrow>
              (\<forall>i<length ls. i \<noteq> j \<longrightarrow> analysis_of (res ! i) \<noteq> None)) \<and>
           (\<forall>order'. {..<length ls} \<subseteq> set order' \<longrightarrow> linksWithAnalysis net order' ls = Some res)"
proof -
  let ?res = "link_outcomes net ls"
  have 1: "linksWithAnalysis net order ls = Some ?res"
    using assms by (simp add: linksWithAnalysis_eq)
  have 2: "length ?res = length ls"
    by (rule length_link_outcomes)
  have 3: "link_of (?res ! i) = ls ! i \<and>
           analysis_of (?res ! i) =
             (case fetchAnalysis (net i (href (ls ! i))) of Inl e \<Rightarrow> None | Inr a \<Rightarrow> Some a)"
    if "i < length ls" for i
    using that by (simp add: nth_link_outcomes link_of_analyseLink analysis_of_analyseLink)
  have 4: "analysis_of (?res ! i) \<noteq> None"
    if "i < length ls" "fetchAnalysis (net i (href (ls ! i))) = Inr a" for i a
    using that 3[of i] by simp
  have 5: "linksWithAnalysis net order' ls = Some ?res" if "{..<length ls} \<subseteq> set order'" for order'
    using that by (simp add: linksWithAnalysis_eq)
  from 1 2 3 4 5 show ?thesis by blast
qed

theorem batch_length_order_isolation_witness:
  "{..<length [link_tos, link_priv]} \<subseteq> set [Suc 0, 0] \<and>
   (\<exists>res. linksWithAnalysis net_scenario [Suc 0, 0] [link_tos, link_priv] = Some res \<and>
      length res = 2 \<and>
      link_of (res ! 0) = link_tos \<and> analysis_of (res ! 0) = Some analysis_tos \<and>
      link_of (res ! 1) = link_priv \<and> analysis_of (res ! 1) = None)"
proof -
  have h: "{..<length [link_tos, link_priv]} \<subseteq> set [Suc 0, 0]"
    by (auto simp: less_Suc_eq)
  from batch_length_order_isolation[OF h, of net_scenario]
  obtain res where r: "linksWithAnalysis net_scenario [Suc 0, 0] [link_tos, link_priv] = Some res"
    and l: "length res = length [link_tos, link_priv]"
    and n: "\<forall>i<length [link_tos, link_priv]. link_of (res ! i) = [link_tos, link_priv] ! i \<and>
              analysis_of (res ! i) =
                (case fetchAnalysis (net_scenario i (href ([link_tos, link_priv] ! i))) of
                   Inl e \<Rightarrow> None | Inr a \<Rightarrow> Some a)"
    by blast
  from n have n0: "link_of (res ! 0) = link_tos \<and> analysis_of (res ! 0) = Some analysis_tos"
    by (simp add: fetchAnalysis_def net_scenario_def link_tos_def)
  from n have "link_of (res ! Suc 0) = link_priv \<and> analysis_of (res ! Suc 0) = None"
    by (simp add: fetchAnalysis_def net_scenario_def link_priv_def)
  then have n1: "link_of (res ! 1) = link_priv \<and> analysis_of (res ! 1) = None"
    by simp
  from h r l n0 n1 show ?thesis by auto
qed

text \<open>
  C10. The entry stored for a link whose fetch rejects is the link itself, all its fields
  as they were, with no analysis and nothing that records the failure; the entry of a
  link whose fetch succeeds is the same link with the analysis added.
\<close>

theorem stored_entry_of_a_link:
  assumes "linksWithAnalysis net order ls = Some res" and "i < length ls"
  shows "(\<forall>e. fetchAnalysis (net i (href (ls ! i))) = Inl e \<longrightarrow> res ! i = Link (ls ! i)) \<and>
         (\<forall>a. fetchAnalysis (net i (href (ls ! i))) = Inr a \<longrightarrow> res ! i = LinkWithAnalysis (ls ! i) a) \<and>
         link_of (res ! i) = ls ! i"
proof -
  from assms(1) have "res = link_outcomes net ls"
    by (simp add: linksWithAnalysis_eq split: if_splits)
  with assms(2) have "res ! i = analyseLink (net i (href (ls ! i))) (ls ! i)"
    by (simp add: nth_link_outcomes)
  then show ?thesis
    by (simp add: analyseLink_def link_of_analyseLink split: sum.splits)
qed

theorem stored_entry_of_a_link_witness:
  "linksWithAnalysis net_scenario [0, Suc 0] [link_tos, link_priv]
     = Some [LinkWithAnalysis link_tos analysis_tos, Link link_priv] \<and>
   Suc 0 < length [link_tos, link_priv] \<and>
   fetchAnalysis (net_scenario (Suc 0) (href ([link_tos, link_priv] ! Suc 0))) = Inl (Error ''Failed to fetch'') \<and>
   [LinkWithAnalysis link_tos analysis_tos, Link link_priv] ! Suc 0 = Link ([link_tos, link_priv] ! Suc 0) \<and>
   link_of ([LinkWithAnalysis link_tos analysis_tos, Link link_priv] ! Suc 0) = [link_tos, link_priv] ! Suc 0"
proof -
  have a: "linksWithAnalysis net_scenario [0, Suc 0] [link_tos, link_priv]
     = Some [LinkWithAnalysis link_tos analysis_tos, Link link_priv]"
    using scenario_complete by (simp add: linksWithAnalysis_eq link_outcomes_scenario)
  have b: "Suc 0 < length [link_tos, link_priv]" by simp
  have c: "fetchAnalysis (net_scenario (Suc 0) (href ([link_tos, link_priv] ! Suc 0))) = Inl (Error ''Failed to fetch'')"
    by (simp add: fetchAnalysis_def net_scenario_def link_priv_def)
  from stored_entry_of_a_link[OF a b] a b c show ?thesis by simp
qed

text \<open>
  C6. The listener is claimed to acknowledge a \<open>sendLinks\<close> notification synchronously,
  not waiting for the batch analysis. In the source \<open>sendResponse\<close> follows
  \<open>await Promise.all\<close>: for a \<open>sendLinks\<close> notification no acknowledgement is sent in
  the synchronous part; when a fetch never settles the listener never resumes and none
  is sent at all; when every fetch has settled, the acknowledgement \<open>{farewell: "goodbye"}\<close>
  is the last effect, after the links have been stored.
\<close>

theorem acknowledgement_after_batch:
  assumes "action message = ''sendLinks''"
  shows "(\<forall>r. SendResponse r \<notin> set (messageListener_sync message)) \<and>
         (\<not> {..<length (ContentScriptMessage.links message)} \<subseteq> set order \<longrightarrow>
            messageListener net order message = None) \<and>
         ({..<length (ContentScriptMessage.links message)} \<subseteq> set order \<longrightarrow>
            messageListener net order message =
              Some (messageListener_sync message
                    @ [SetLinks (link_outcomes net (ContentScriptMessage.links message)),
                       SetError None, SendResponse goodbye]))"
  using assms
  by (auto simp: messageListener_sendLinks messageListener_sync_def)

theorem acknowledgement_after_batch_witness:
  "action message_scenario = ''sendLinks'' \<and>
   SendResponse goodbye \<notin> set (messageListener_sync message_scenario) \<and>
   \<not> {..<length (ContentScriptMessage.links message_scenario)} \<subseteq> set [0] \<and>
   messageListener net_scenario [0] message_scenario = None \<and>
   {..<length (ContentScriptMessage.links message_scenario)} \<subseteq> set [0, Suc 0] \<and>
   messageListener net_scenario [0, Suc 0] message_scenario =
     Some (messageListener_sync message_scenario
           @ [SetLinks (link_outcomes net_scenario (ContentScriptMessage.links message_scenario)),
              SetError None, SendResponse goodbye])"
proof -
  have a: "action message_scenario = ''sendLinks''" by (simp add: message_scenario_def)
  have p: "\<not> {..<length (ContentScriptMessage.links message_scenario)} \<subseteq> set [0]"
    using scenario_pending by (simp add: message_scenario_def)
  have c: "{..<length (ContentScriptMessage.links message_scenario)} \<subseteq> set [0, Suc 0]"
    using scenario_complete by (simp add: message_scenario_def)
  from acknowledgement_after_batch[OF a, of "[0]" net_scenario]
       acknowledgement_after_batch[OF a, of "[0, Suc 0]" net_scenario] a p c
  show ?thesis by blast
qed

text \<open>
  The claim as stated fails on the scenario when the second fetch never settles: the
  synchronous part holds no acknowledgement and the listener never sends one.
\<close>

theorem acknowledgement_waits_for_batch:
  "SendResponse goodbye \<notin> set (messageListener_sync message_scenario) \<and>
   messageListener net_scenario [0] message_scenario = None"
  by (simp add: messageListener_scenario_pending)
     (auto simp: messageListener_sync_def message_scenario_def)

text \<open>
  C8. A category result whose score is outside 0 to 5 is claimed to be rejected at the
  channel. Neither \<open>fetchAnalysis\<close> nor the listener checks a score: whenever the fetches
  of a notification settle, every analysis that arrives in an \<open>ok\<close> response whose body
  parses is stored with its link as it arrived, whatever its scores, and \<open>error\<close> is set
  to \<open>null\<close>. Such a score still never reaches the aggregation, because the \<open>results\<close>
  that \<open>calculateTotalScore\<close> is applied to stay the initial ones, whose scores are 3, 2,
  4 and 5.
\<close>

theorem scores_are_not_checked:
  assumes "reachable st" and "action message = ''sendLinks''"
    and "{..<length (ContentScriptMessage.links message)} \<subseteq> set order"
  shows "\<exists>es. messageListener net order message = Some es \<and>
           (\<forall>i<length (ContentScriptMessage.links message). \<forall>response a.
              net i (href (ContentScriptMessage.links message ! i)) = Inr response \<and>
              ok response \<and> json response = Inr a \<longrightarrow>
              Sidebar.links (run es st) ! i = LinkWithAnalysis (ContentScriptMessage.links message ! i) a) \<and>
           Sidebar.error (run es st) = None \<and>
           (\<forall>sd \<in> set (Object_values (Results.scores (results (run es st)))).
              valid_score (score sd))"
proof -
  define es where "es = map (\<lambda>link. Fetch (href link)) (ContentScriptMessage.links message)
      @ [SetLinks (link_outcomes net (ContentScriptMessage.links message)), SetError None, SendResponse goodbye]"
  have m: "messageListener net order message = Some es"
    using assms(2,3) by (simp add: messageListener_sendLinks es_def)
  have l: "Sidebar.links (run es st) = link_outcomes net (ContentScriptMessage.links message)"
    unfolding es_def by (rule links_run_listener)
  have e: "Sidebar.error (run es st) = None"
    unfolding es_def by (rule error_run_listener)
  have r: "results (run es st) = initial_results"
    using assms(1) by (simp add: results_run reachable_results)
  have 1: "Sidebar.links (run es st) ! i = LinkWithAnalysis (ContentScriptMessage.links message ! i) a"
    if "i < length (ContentScriptMessage.links message)"
       "net i (href (ContentScriptMessage.links message ! i)) = Inr response"
       "ok response" "json response = Inr a" for i response a
    using that by (simp add: l nth_link_outcomes analyseLink_def fetchAnalysis_ok)
  have 3: "\<forall>sd \<in> set (Object_values (Results.scores (results (run es st)))).
            valid_score (score sd)"
    by (simp add: r initial_results_def Object_values_def valid_score_def)
  from m 1 e 3 show ?thesis by blast
qed

theorem scores_are_not_checked_witness:
  "reachable initial \<and> action message_one = ''sendLinks'' \<and>
   {..<length (ContentScriptMessage.links message_one)} \<subseteq> set [0] \<and>
   net_nine 0 (href (ContentScriptMessage.links message_one ! 0)) = Inr \<lparr>ok = True, json = Inr analysis_nine\<rparr> \<and>
   (\<exists>es. messageListener net_nine [0] message_one = Some es \<and>
      Sidebar.links (run es initial) ! 0 = LinkWithAnalysis link_tos analysis_nine \<and>
      Sidebar.error (run es initial) = None)"
proof -
  have a: "action message_one = ''sendLinks''" by (simp add: message_one_def)
  have c: "{..<length (ContentScriptMessage.links message_one)} \<subseteq> set [0]"
    by (simp add: message_one_def lessThan_Suc)
  have n: "net_nine 0 (href (ContentScriptMessage.links message_one ! 0)) = Inr \<lparr>ok = True, json = Inr analysis_nine\<rparr>"
    by (simp add: net_nine_def)
  have i: "0 < length (ContentScriptMessage.links message_one)" by (simp add: message_one_def)
  have k: "ok \<lparr>ok = True, json = Inr analysis_nine\<rparr>" "json \<lparr>ok = True, json = Inr analysis_nine\<rparr> = Inr analysis_nine"
    by simp_all
  from scores_are_not_checked[OF reachable.init a c, of net_nine]
  obtain es where es: "messageListener net_nine [0] message_one = Some es"
    and st: "\<forall>i<length (ContentScriptMessage.links message_one). \<forall>response a.
              net_nine i (href (ContentScriptMessage.links message_one ! i)) = Inr response \<and>
              ok response \<and> json response = Inr a \<longrightarrow>
              Sidebar.links (run es initial) ! i = LinkWithAnalysis (ContentScriptMessage.links message_one ! i) a"
    and er: "Sidebar.error (run es initial) = None"
    by blast
  from st i n k have "Sidebar.links (run es initial) ! 0
      = LinkWithAnalysis (ContentScriptMessage.links message_one ! 0) analysis_nine"
    by blast
  then have "Sidebar.links (run es initial) ! 0 = LinkWithAnalysis link_tos analysis_nine"
    by (simp add: message_one_def)
  with reachable.init a c n es er show ?thesis by blast
qed


text \<open>The claim as stated fails on an analysis with the score 9: it is accepted and stored.\<close>

theorem out_of_range_score_is_stored:
  "messageListener net_nine [0] message_one =
     Some [Fetch ''https://x.com/tos'', SetLinks [LinkWithAnalysis link_tos analysis_nine],
           SetError None, SendResponse goodbye] \<and>
   map (score \<circ> snd) (Results.scores (ApiResponse.scores analysis_nine)) = [Fin 9] \<and>
   \<not> js_le (Fin 9) (Fin 5)"
  by (simp add: messageListener_one analysis_nine_def)

subsection \<open>The panel\<close>

text \<open>
  C9. In every reachable state of the panel \<open>results\<close> is the initial map of four
  categories, which no effect changes; so the composite score is 70, in the blue
  (moderate) class, and that is what is rendered whenever there are links.
\<close>

theorem results_never_change:
  assumes "reachable st"
  shows "results st = initial_results \<and>
         results (apply_effect e st) = initial_results \<and>
         calculateTotalScore (results st) = Fin 70 \<and>
         (Sidebar.links st \<noteq> [] \<longrightarrow> scorePanel (render st) = Some (Fin 70, ''text-blue-600''))"
proof -
  have r: "results st = initial_results" using assms by (rule reachable_results)
  then show ?thesis
    by (simp add: results_apply_effect total_initial_results scoreClass_70 render_def)
qed

theorem results_never_change_witness:
  "reachable scenario_state \<and> Sidebar.links scenario_state \<noteq> [] \<and>
   results scenario_state = initial_results \<and>
   results (apply_effect (SetLinks []) scenario_state) = initial_results \<and>
   calculateTotalScore (results scenario_state) = Fin 70 \<and>
   scorePanel (render scenario_state) = Some (Fin 70, ''text-blue-600'')"
proof -
  have n: "Sidebar.links scenario_state \<noteq> []" by (simp add: scenario_state_eq)
  from results_never_change[OF reachable_scenario_state, of "SetLinks []"] n reachable_scenario_state
  show ?thesis by (simp add: total_initial_results)
qed

text \<open>
  C5. The composite score is claimed to be computed from the category maps of the links
  whose analysis succeeded. After a \<open>sendLinks\<close> notification the panel holds the batch's
  entries, failed links included, but the score it renders is that of the initial
  \<open>results\<close>, which the listener never sets: 70 whenever there are links.
\<close>

theorem composite_from_initial_results:
  assumes "reachable st" and "action message = ''sendLinks''"
    and "messageListener net order message = Some es"
  shows "Sidebar.links (run es st) = link_outcomes net (ContentScriptMessage.links message) \<and>
         results (run es st) = initial_results \<and>
         scorePanel (render (run es st)) =
           (if ContentScriptMessage.links message = [] then None
            else Some (calculateTotalScore initial_results, ''text-blue-600''))"
proof -
  from assms(2,3) have es: "es = map (\<lambda>link. Fetch (href link)) (ContentScriptMessage.links message)
      @ [SetLinks (link_outcomes net (ContentScriptMessage.links message)), SetError None, SendResponse goodbye]"
    by (simp add: messageListener_sendLinks split: if_splits)
  have l: "Sidebar.links (run es st) = link_outcomes net (ContentScriptMessage.links message)"
    unfolding es by (rule links_run_listener)
  have r: "results (run es st) = initial_results"
    using assms(1) by (simp add: results_run reachable_results)
  have e: "(link_outcomes net (ContentScriptMessage.links message) = []) = (ContentScriptMessage.links message = [])"
    using length_link_outcomes[of net "ContentScriptMessage.links message"] by (metis length_0_conv)
  show ?thesis
    using l r e by (simp add: render_def total_initial_results scoreClass_70)
qed

theorem composite_from_initial_results_witness:
  "reachable initial \<and> action message_scenario = ''sendLinks'' \<and>
   messageListener net_scenario [0, Suc 0] message_scenario =
     Some [Fetch ''https://x.com/tos'', Fetch ''https://x.com/priv'',
           SetLinks [LinkWithAnalysis link_tos analysis_tos, Link link_priv],
           SetError None, SendResponse goodbye] \<and>
   Sidebar.links scenario_state = [LinkWithAnalysis link_tos analysis_tos, Link link_priv] \<and>
   results scenario_state = initial_results \<and>
   scorePanel (render scenario_state) = Some (calculateTotalScore initial_results, ''text-blue-600'')"
proof -
  have a: "action message_scenario = ''sendLinks''" by (simp add: message_scenario_def)
  have s: "scenario_state = run [Fetch ''https://x.com/tos'', Fetch ''https://x.com/priv'',
           SetLinks [LinkWithAnalysis link_tos analysis_tos, Link link_priv],
           SetError None, SendResponse goodbye] initial"
    by (simp add: scenario_state_def messageListener_scenario)
  from composite_from_initial_results[OF reachable.init a messageListener_scenario]
  show ?thesis
    unfolding s[symmetric]
    using reachable.init a messageListener_scenario
    by (simp add: message_scenario_def link_outcomes_scenario)
qed

text \<open>
  The claim as stated fails on the scenario of the specification: the category map of the
  one successful link gives 50, the panel renders 70.
\<close>

theorem composite_ignores_fetched_scores:
  "Sidebar.links scenario_state = [LinkWithAnalysis link_tos analysis_tos, Link link_priv] \<and>
   scorePanel (render scenario_state) = Some (Fin 70, ''text-blue-600'') \<and>
   calculateTotalScore (spec_successful_maps (Sidebar.links scenario_state)) = Fin 50"
proof -
  have "calculateTotalScore (spec_successful_maps [LinkWithAnalysis link_tos analysis_tos, Link link_priv]) = Fin 50"
    by (simp add: spec_successful_maps_def analysis_tos_def calculateTotalScore_def Object_values_def
          fl_numeral fl_0 fl_1_2 floor_rat_numeral)
  then show ?thesis
    by (simp add: scenario_state_eq render_def initial_def total_initial_results scoreClass_70)
qed

end
